theory Spec2Isabelle
  imports Complex_Main
begin

section \<open>JavaScript numbers\<close>

text \<open>
  The values that \<^verbatim>\<open>Number(...)\<close> and \<^verbatim>\<open>player.getCurrentTime()\<close> produce in
  \<^verbatim>\<open>assets/js/site.js\<close>. A finite number carries its exact value (the rounding of
  IEEE doubles is not modelled); \<open>NaN\<close> and the two infinities are kept because every
  comparison with \<open>NaN\<close> is false and the guards of the script depend on it.
\<close>

datatype jsnum = NaN | NInf | Fin rat | PInf

text \<open>The relational operator \<^verbatim>\<open>a < b\<close>; false as soon as one side is \<open>NaN\<close>.\<close>

fun js_lt :: "jsnum \<Rightarrow> jsnum \<Rightarrow> bool" where
  "js_lt NaN b = False"
| "js_lt a NaN = False"
| "js_lt (Fin x) (Fin y) = (x < y)"
| "js_lt a NInf = False"
| "js_lt NInf b = True"
| "js_lt PInf b = False"
| "js_lt a PInf = True"

definition js_gt :: "jsnum \<Rightarrow> jsnum \<Rightarrow> bool" where
  "js_gt a b = js_lt b a"

text \<open>\<^verbatim>\<open>a >= b\<close> is "not \<^verbatim>\<open>a < b\<close>" unless one side is \<open>NaN\<close>, and then it is false.\<close>

definition js_ge :: "jsnum \<Rightarrow> jsnum \<Rightarrow> bool" where
  "js_ge a b = (a \<noteq> NaN \<and> b \<noteq> NaN \<and> \<not> js_lt a b)"

definition js_le :: "jsnum \<Rightarrow> jsnum \<Rightarrow> bool" where
  "js_le a b = (a \<noteq> NaN \<and> b \<noteq> NaN \<and> \<not> js_lt b a)"

fun js_sub :: "jsnum \<Rightarrow> jsnum \<Rightarrow> jsnum" where
  "js_sub NaN b = NaN"
| "js_sub a NaN = NaN"
| "js_sub (Fin x) (Fin y) = Fin (x - y)"
| "js_sub PInf PInf = NaN"
| "js_sub NInf NInf = NaN"
| "js_sub PInf b = PInf"
| "js_sub NInf b = NInf"
| "js_sub a PInf = NInf"
| "js_sub a NInf = PInf"

section \<open>The window's interval timers\<close>

text \<open>
  \<^verbatim>\<open>window.setInterval\<close> hands out a fresh positive handle and registers the callback;
  \<^verbatim>\<open>window.clearInterval\<close> removes the timer with that handle and never throws. The only
  interval callbacks of the script are the loop checks of the video portals, so a timer is
  stored with the index of the portal whose closure it runs.
\<close>

record window =
  counter :: nat
  intervals :: "(nat \<times> nat) list"

definition setInterval :: "nat \<Rightarrow> window \<Rightarrow> nat \<times> window" where
  "setInterval owner w =
     (let t = Suc (counter w)
      in (t, w\<lparr>counter := t, intervals := intervals w @ [(t, owner)]\<rparr>))"

definition clearInterval :: "nat \<Rightarrow> window \<Rightarrow> window" where
  "clearInterval t w = w\<lparr>intervals := filter (\<lambda>e. fst e \<noteq> t) (intervals w)\<rparr>"

definition timers_of :: "nat \<Rightarrow> window \<Rightarrow> nat list" where
  "timers_of owner w = map fst (filter (\<lambda>e. snd e = owner) (intervals w))"

section \<open>The embedded player, seen from the script\<close>

text \<open>
  The player object belongs to the third-party SDK. The model records every call the
  script makes into it, in order; what a call answers (returning or throwing, the position
  read) is an input of the handler that makes it.
\<close>

datatype player_call = Mute | PlayVideo | PauseVideo | SeekTo jsnum bool | GetCurrentTime

datatype resp = Done | Throws

datatype reading = Reads jsnum | ReadThrows

text \<open>The constants of \<^verbatim>\<open>YT_STATE\<close> that the state handler compares with.\<close>

definition ENDED :: int where "ENDED = 0"
definition PLAYING :: int where "PLAYING = 1"

section \<open>One video portal\<close>

text \<open>
  What \<^verbatim>\<open>initVideoPortals\<close> reads of a \<^verbatim>\<open>.videoPortal\<close> element: the mount point
  (\<open>None\<close> when \<^verbatim>\<open>querySelector\<close> finds none, otherwise its \<^verbatim>\<open>id\<close>, empty when it has
  none), whether a start button exists, and the three data attributes (\<open>None\<close> when the
  attribute is missing). Two more fields are answers of the environment while the portal
  is mounted: whether \<^verbatim>\<open>new YT.Player\<close> throws, and the digits that
  \<^verbatim>\<open>Math.random().toString(16).slice(2)\<close> yields.
\<close>

record portal =
  mount :: "string option"
  startBtn :: bool
  youtube_id :: "string option"
  data_start :: "string option"
  data_end :: "string option"
  ctor_throws :: bool
  random_hex :: string

text \<open>
  The closure that the \<^verbatim>\<open>forEach\<close> body of \<^verbatim>\<open>initVideoPortals\<close> builds for a portal:
  its constants (\<open>c_start\<close>, \<open>c_end\<close>, \<open>c_reduce\<close>, \<open>playerVars\<close>), the variable
  \<open>loopTimer\<close>, the \<^verbatim>\<open>is-playing\<close> class of the portal element, the listeners and the
  observer it has registered, and the calls it has made into its player.
\<close>

record controller =
  pid :: nat
  mount_id :: string
  videoId :: string
  c_start :: jsnum
  c_end :: jsnum
  c_reduce :: bool
  playerVars :: "(string \<times> jsnum) list"
  loopTimer :: "nat option"
  is_playing :: bool
  click_listener :: bool
  io_observing :: bool
  pagehide_listener :: bool
  issued :: "player_call list"

definition call :: "player_call \<Rightarrow> controller \<Rightarrow> controller" where
  "call k c = c\<lparr>issued := issued c @ [k]\<rparr>"

text \<open>
  \<^verbatim>\<open>attr || '0'\<close>: a missing attribute (\<^verbatim>\<open>null\<close>) and the empty string are falsy.
\<close>

definition or_zero :: "string option \<Rightarrow> string" where
  "or_zero a = (case a of None \<Rightarrow> ''0'' | Some s \<Rightarrow> if s = [] then ''0'' else s)"

text \<open>
  The object literal \<open>playerVars\<close> after the loop that deletes its undefined properties.
\<close>

definition make_playerVars :: "bool \<Rightarrow> jsnum \<Rightarrow> jsnum \<Rightarrow> (string \<times> jsnum) list" where
  "make_playerVars reduce st en =
     map (\<lambda>kv. (fst kv, the (snd kv)))
       (filter (\<lambda>kv. snd kv \<noteq> None)
          [(''autoplay'', Some (if reduce then Fin 0 else Fin 1)),
           (''controls'', Some (Fin 0)),
           (''modestbranding'', Some (Fin 1)),
           (''rel'', Some (Fin 0)),
           (''playsinline'', Some (Fin 1)),
           (''iv_load_policy'', Some (Fin 3)),
           (''fs'', Some (Fin 0)),
           (''disablekb'', Some (Fin 1)),
           (''start'', if js_gt st (Fin 0) then Some st else None),
           (''end'', if js_gt en (Fin 0) then Some en else None),
           (''mute'', Some (Fin 1))])"

datatype mount_result = Skipped | Faulted | Mounted controller

text \<open>
  The body of \<^verbatim>\<open>portals.forEach\<close> up to the end of the callback. \<open>num\<close> is the built-in
  \<^verbatim>\<open>Number\<close> on strings, \<open>reduce\<close> the answer of \<^verbatim>\<open>prefersReducedMotion()\<close>, \<open>io\<close>
  whether \<^verbatim>\<open>'IntersectionObserver' in window\<close>, \<open>i\<close> the index of the portal. The
  callback returns early without a mount point or a video id; \<^verbatim>\<open>new YT.Player\<close> is
  called outside any \<^verbatim>\<open>try\<close>, so when it throws the callback is left at once and nothing
  after it is registered (the \<^verbatim>\<open>id\<close> given to the mount point just before stays in the
  document and is not part of the result).
\<close>

definition mountPortal ::
  "(string \<Rightarrow> jsnum) \<Rightarrow> bool \<Rightarrow> bool \<Rightarrow> nat \<Rightarrow> portal \<Rightarrow> mount_result" where
  "mountPortal num reduce io i p =
     (let st = num (or_zero (data_start p));
          en = num (or_zero (data_end p))
      in case mount p of
           None \<Rightarrow> Skipped
         | Some m \<Rightarrow>
             (case youtube_id p of
                None \<Rightarrow> Skipped
              | Some v \<Rightarrow>
                  if v = [] then Skipped
                  else if ctor_throws p then Faulted
                  else Mounted
                    \<lparr>pid = i,
                     mount_id = (if m = [] then ''yt-'' @ random_hex p else m),
                     videoId = v,
                     c_start = st,
                     c_end = en,
                     c_reduce = reduce,
                     playerVars = make_playerVars reduce st en,
                     loopTimer = None,
                     is_playing = False,
                     click_listener = startBtn p,
                     io_observing = io,
                     pagehide_listener = True,
                     issued = []\<rparr>))"

subsection \<open>The loop watchdog\<close>

text \<open>
  \<^verbatim>\<open>if (loopTimer) { window.clearInterval(loopTimer); loopTimer = null; }\<close>: the test is
  JavaScript truthiness, false for \<^verbatim>\<open>null\<close> and for the number 0.
\<close>

definition clearLoop :: "window \<times> controller \<Rightarrow> window \<times> controller" where
  "clearLoop wc =
     (case loopTimer (snd wc) of
        None \<Rightarrow> wc
      | Some t \<Rightarrow>
          if t \<noteq> 0 then (clearInterval t (fst wc), (snd wc)\<lparr>loopTimer := None\<rparr>)
          else wc)"

definition valid_range :: "controller \<Rightarrow> bool" where
  "valid_range c =
     (js_gt (c_start c) (Fin 0) \<and> js_gt (c_end c) (Fin 0) \<and> js_gt (c_end c) (c_start c))"

definition ensureLoop :: "window \<times> controller \<Rightarrow> window \<times> controller" where
  "ensureLoop wc =
     (if \<not> valid_range (snd wc) then wc
      else let wc1 = clearLoop wc;
               tw = setInterval (pid (snd wc1)) (fst wc1)
           in (snd tw, (snd wc1)\<lparr>loopTimer := Some (fst tw)\<rparr>))"

text \<open>
  The interval callback. \<open>r\<close> is what \<^verbatim>\<open>player.getCurrentTime()\<close> answers. The seek is
  the last statement of the \<^verbatim>\<open>try\<close> block, so whether it throws changes nothing.
\<close>

definition loopTick :: "reading \<Rightarrow> controller \<Rightarrow> controller" where
  "loopTick r c =
     (let c1 = call GetCurrentTime c
      in case r of
           ReadThrows \<Rightarrow> c1
         | Reads t \<Rightarrow>
             if js_ge t (js_sub (c_end c) (Fin (15 / 100)))
             then call (SeekTo (c_start c) True) c1
             else c1)"

subsection \<open>The handlers\<close>

text \<open>
  \<^verbatim>\<open>onReady\<close>: \<open>m\<close> is the answer of \<^verbatim>\<open>mute()\<close>; when it throws, the \<^verbatim>\<open>catch\<close> ends
  the handler before any play command.
\<close>

definition onReady :: "resp \<Rightarrow> controller \<Rightarrow> controller" where
  "onReady m c =
     (let c1 = call Mute c
      in case m of
           Throws \<Rightarrow> c1
         | Done \<Rightarrow> if \<not> c_reduce c then call PlayVideo c1 else c1)"

text \<open>
  \<^verbatim>\<open>onStateChange\<close>: \<open>st\<close> is \<^verbatim>\<open>ev.data\<close>, \<open>sk\<close> the answer of \<^verbatim>\<open>seekTo\<close> in the
  \<^verbatim>\<open>ENDED\<close> branch.
\<close>

definition onStateChange :: "int \<Rightarrow> resp \<Rightarrow> window \<times> controller \<Rightarrow> window \<times> controller" where
  "onStateChange st sk wc =
     (let wc1 = (if st = PLAYING
                 then ensureLoop (fst wc, (snd wc)\<lparr>is_playing := True\<rparr>)
                 else wc);
          c1 = snd wc1;
          c2 = (if st = ENDED \<and> js_gt (c_start c1) (Fin 0)
                then (let c' = call (SeekTo (c_start c1) True) c1
                      in case sk of Throws \<Rightarrow> c' | Done \<Rightarrow> call PlayVideo c')
                else c1)
      in (fst wc1, c2))"

text \<open>The click listener of the start button, registered only when the button exists.\<close>

definition startClick :: "resp \<Rightarrow> controller \<Rightarrow> controller" where
  "startClick m c =
     (if \<not> click_listener c then c
      else let c1 = call Mute c
           in case m of Throws \<Rightarrow> c1 | Done \<Rightarrow> call PlayVideo c1)"

text \<open>
  The observer callback of the portal: one pause command for every entry that is not
  intersecting. An observer that was never created delivers nothing.
\<close>

definition onIntersect :: "bool list \<Rightarrow> controller \<Rightarrow> controller" where
  "onIntersect entries c =
     (if \<not> io_observing c then c
      else fold (\<lambda>isIntersecting c'. if isIntersecting then c' else call PauseVideo c')
             entries c)"

text \<open>
  The \<^verbatim>\<open>pagehide\<close> listener, registered with \<^verbatim>\<open>once: true\<close>: it runs \<open>clearLoop\<close> and
  is gone afterwards.
\<close>

definition onPagehide :: "window \<times> controller \<Rightarrow> window \<times> controller" where
  "onPagehide wc =
     (if \<not> pagehide_listener (snd wc) then wc
      else let wc1 = clearLoop wc
           in (fst wc1, (snd wc1)\<lparr>pagehide_listener := False\<rparr>))"

section \<open>The page of portals\<close>

record page =
  win :: window
  ctrls :: "controller list"

datatype outcome = Completed | Threw

text \<open>
  \<^verbatim>\<open>portals.forEach(...)\<close>: the portals are mounted in document order; an exception
  that escapes the callback ends the iteration, and the portals after it are not visited.
\<close>

fun forEach_mount ::
  "(string \<Rightarrow> jsnum) \<Rightarrow> bool \<Rightarrow> bool \<Rightarrow> nat \<Rightarrow> portal list \<Rightarrow> controller list
     \<Rightarrow> outcome \<times> controller list" where
  "forEach_mount num reduce io i [] acc = (Completed, acc)"
| "forEach_mount num reduce io i (p # ps) acc =
     (case mountPortal num reduce io i p of
        Skipped \<Rightarrow> forEach_mount num reduce io (Suc i) ps acc
      | Faulted \<Rightarrow> (Threw, acc)
      | Mounted c \<Rightarrow> forEach_mount num reduce io (Suc i) ps (acc @ [c]))"

text \<open>
  \<^verbatim>\<open>initVideoPortals\<close> from the point where the awaited SDK promise has resolved. \<open>k\<close> is
  the last timer handle the window has handed out before.
\<close>

definition initVideoPortals ::
  "(string \<Rightarrow> jsnum) \<Rightarrow> bool \<Rightarrow> bool \<Rightarrow> nat \<Rightarrow> portal list \<Rightarrow> outcome \<times> page" where
  "initVideoPortals num reduce io k ps =
     (let r = forEach_mount num reduce io 0 ps []
      in (fst r, \<lparr>win = \<lparr>counter = k, intervals = []\<rparr>, ctrls = snd r\<rparr>))"

text \<open>
  What can happen to a mounted page afterwards. Player events and clicks name the portal
  they belong to; a timer event names the handle of the interval that fires.
\<close>

datatype event =
    PlayerReady nat resp
  | StateChange nat int resp
  | StartClick nat resp
  | Intersect nat "bool list"
  | Tick nat reading
  | PageHide

text \<open>
  Dispatch of an event to the closures it concerns: the handler \<open>f\<close> runs, in document
  order, for every controller whose portal index satisfies \<open>sel\<close>; each run sees the
  window as the previous one left it.
\<close>

fun dispatch ::
  "(nat \<Rightarrow> bool) \<Rightarrow> (window \<times> controller \<Rightarrow> window \<times> controller) \<Rightarrow> window
     \<Rightarrow> controller list \<Rightarrow> window \<times> controller list" where
  "dispatch sel f w [] = (w, [])"
| "dispatch sel f w (c # cs) =
     (let wc = (if sel (pid c) then f (w, c) else (w, c));
          r = dispatch sel f (fst wc) cs
      in (fst r, snd wc # snd r))"

definition on_ctrl ::
  "(nat \<Rightarrow> bool) \<Rightarrow> (window \<times> controller \<Rightarrow> window \<times> controller) \<Rightarrow> page \<Rightarrow> page" where
  "on_ctrl sel f pg =
     (let r = dispatch sel f (win pg) (ctrls pg) in pg\<lparr>win := fst r, ctrls := snd r\<rparr>)"

definition pure_h :: "(controller \<Rightarrow> controller) \<Rightarrow> window \<times> controller \<Rightarrow> window \<times> controller" where
  "pure_h g wc = (fst wc, g (snd wc))"

text \<open>
  A tick runs the callback of the interval with that handle, if it is still active.
  \<^verbatim>\<open>pagehide\<close> is dispatched to the listener of every portal.
\<close>

fun step :: "event \<Rightarrow> page \<Rightarrow> page" where
  "step (PlayerReady i m) pg = on_ctrl (\<lambda>j. j = i) (pure_h (onReady m)) pg"
| "step (StateChange i st sk) pg = on_ctrl (\<lambda>j. j = i) (onStateChange st sk) pg"
| "step (StartClick i m) pg = on_ctrl (\<lambda>j. j = i) (pure_h (startClick m)) pg"
| "step (Intersect i entries) pg = on_ctrl (\<lambda>j. j = i) (pure_h (onIntersect entries)) pg"
| "step (Tick t r) pg =
     (case map_of (intervals (win pg)) t of
        None \<Rightarrow> pg
      | Some i \<Rightarrow> on_ctrl (\<lambda>j. j = i) (pure_h (loopTick r)) pg)"
| "step PageHide pg = on_ctrl (\<lambda>j. True) onPagehide pg"

definition run :: "event list \<Rightarrow> page \<Rightarrow> page" where
  "run es pg = fold step es pg"

section \<open>The SDK bootstrap\<close>










section \<open>The smart media loader\<close>

datatype handler = OnLoad | OnError

text \<open>
  What \<^verbatim>\<open>initSmartMedia\<close> finds of an \<^verbatim>\<open>img[data-src]\<close> element in the markup: its
  \<^verbatim>\<open>data-src\<close> and \<^verbatim>\<open>src\<close> attributes and the element that
  \<^verbatim>\<open>closest('[data-component="smart-media"]')\<close> returns for it (\<open>None\<close> when there is
  none). Several images can have the same holder.
\<close>

record element =
  el_data_src :: "string option"
  el_src :: "string option"
  el_holder :: "nat option"

text \<open>
  A candidate while the script runs: the attributes, the number of \<open>onLoad\<close>/\<open>onError\<close>
  closure pairs registered on it (every call of \<open>loadImg\<close> creates a new pair), its
  holder, whether the observer watches it, and the handlers that have run on it, oldest
  first.
\<close>

record img =
  data_src :: "string option"
  src :: "string option"
  listeners :: nat
  holder :: "nat option"
  observed :: bool
  fired :: "handler list"

text \<open>The class lists of the holder elements, and the candidates in document order.\<close>

record media =
  classes :: "nat \<Rightarrow> string list"
  imgs :: "img list"

text \<open>No closure of the script is registered on an image before the script runs.\<close>

definition register :: "element \<Rightarrow> img" where
  "register e =
     \<lparr>data_src = el_data_src e, src = el_src e, listeners = 0, holder = el_holder e,
      observed = False, fired = []\<rparr>"


definition loadImg :: "img \<Rightarrow> img" where
  "loadImg i =
     (case data_src i of
        None \<Rightarrow> i
      | Some s \<Rightarrow> if s = [] then i else i\<lparr>listeners := Suc (listeners i), src := Some s\<rparr>)"







text \<open>
  \<open>io\<close> is \<^verbatim>\<open>'IntersectionObserver' in window\<close>, \<open>cl\<close> the class lists the markup gives
  the holders.
\<close>

definition initSmartMedia :: "bool \<Rightarrow> (nat \<Rightarrow> string list) \<Rightarrow> element list \<Rightarrow> media" where
  "initSmartMedia io cl els =
     (let candidates = map register els
      in \<lparr>classes = cl,
          imgs = (if candidates = [] then []
                  else if io then map (\<lambda>i. i\<lparr>observed := True\<rparr>) candidates
                  else map loadImg candidates)\<rparr>)"

text \<open>
  The status of the specification's deferred-media record, read off the image: loading
  while listeners of the script are registered on it; otherwise pending as long as no
  handler has run, and then what the most recent handler says.
\<close>

datatype status = Pending | Loading | Loaded | Failed

definition status_of :: "img \<Rightarrow> status" where
  "status_of i =
     (if 0 < listeners i then Loading
      else if fired i = [] then Pending
      else (case last (fired i) of OnLoad \<Rightarrow> Loaded | OnError \<Rightarrow> Failed))"



section \<open>Invariants of a mounted page\<close>

text \<open>
  Handles of active timers are positive, at most the counter, and pairwise different; a
  controller's \<open>loopTimer\<close> names exactly the timers that run its closure.
\<close>

definition win_ok :: "window \<Rightarrow> bool" where
  "win_ok w =
     ((\<forall>e \<in> set (intervals w). 0 < fst e \<and> fst e \<le> counter w)
      \<and> distinct (map fst (intervals w)))"

definition ctrl_ok :: "window \<Rightarrow> controller \<Rightarrow> bool" where
  "ctrl_ok w c = (timers_of (pid c) w = (case loopTimer c of None \<Rightarrow> [] | Some t \<Rightarrow> [t]))"

definition page_ok :: "page \<Rightarrow> bool" where
  "page_ok pg =
     (win_ok (win pg) \<and> distinct (map pid (ctrls pg))
      \<and> (\<forall>c \<in> set (ctrls pg). ctrl_ok (win pg) c))"

text \<open>
  A handler keeps the invariants and touches no timer of another portal.
\<close>

definition handler_ok :: "(window \<times> controller \<Rightarrow> window \<times> controller) \<Rightarrow> bool" where
  "handler_ok f =
     (\<forall>w c. win_ok w \<and> ctrl_ok w c \<longrightarrow>
        win_ok (fst (f (w, c))) \<and> ctrl_ok (fst (f (w, c))) (snd (f (w, c)))
        \<and> pid (snd (f (w, c))) = pid c
        \<and> (\<forall>q. q \<noteq> pid c \<longrightarrow> timers_of q (fst (f (w, c))) = timers_of q w))"

definition keeps_timer :: "(controller \<Rightarrow> controller) \<Rightarrow> bool" where
  "keeps_timer g = (\<forall>c. pid (g c) = pid c \<and> loopTimer (g c) = loopTimer c)"

text \<open>A property of controllers that no handler but the \<^verbatim>\<open>pagehide\<close> one can break.\<close>

definition stable :: "(controller \<Rightarrow> bool) \<Rightarrow> bool" where
  "stable Q =
     (\<forall>w c. win_ok w \<and> ctrl_ok w c \<and> Q c \<longrightarrow>
        (\<forall>st sk. Q (snd (onStateChange st sk (w, c)))) \<and> (\<forall>m. Q (onReady m c))
        \<and> (\<forall>m. Q (startClick m c)) \<and> (\<forall>es. Q (onIntersect es c)) \<and> (\<forall>r. Q (loopTick r c)))"

definition hide_stable :: "(controller \<Rightarrow> bool) \<Rightarrow> bool" where
  "hide_stable Q = (\<forall>w c. win_ok w \<and> ctrl_ok w c \<and> Q c \<longrightarrow> Q (snd (onPagehide (w, c))))"

text \<open>The constants of a closure are those of the portal it was built for.\<close>

definition bound_to ::
  "(string \<Rightarrow> jsnum) \<Rightarrow> bool \<Rightarrow> bool \<Rightarrow> portal list \<Rightarrow> controller \<Rightarrow> bool" where
  "bound_to num reduce io ps c =
     (pid c < length ps
      \<and> c_start c = num (or_zero (data_start (ps ! pid c)))
      \<and> c_end c = num (or_zero (data_end (ps ! pid c)))
      \<and> c_reduce c = reduce
      \<and> playerVars c = make_playerVars reduce (c_start c) (c_end c)
      \<and> click_listener c = startBtn (ps ! pid c)
      \<and> io_observing c = io)"

definition idle_if_unbounded :: "controller \<Rightarrow> bool" where
  "idle_if_unbounded c = (\<not> valid_range c \<longrightarrow> loopTimer c = None)"

definition fresh :: "controller \<Rightarrow> bool" where
  "fresh c = (loopTimer c = None \<and> pagehide_listener c \<and> \<not> is_playing c \<and> issued c = [])"

definition armed :: "controller \<Rightarrow> bool" where
  "armed c = pagehide_listener c"

section \<open>Invariants of the SDK bootstrap\<close>





section \<open>Sample inputs\<close>

text \<open>
  The built-in \<^verbatim>\<open>Number\<close> is a parameter of the model. For the closed examples below it
  is instantiated with this function, which agrees with the built-in on the four strings
  the examples use: \<^verbatim>\<open>"0"\<close>, \<^verbatim>\<open>"10"\<close>, \<^verbatim>\<open>"20"\<close> (their decimal value) and \<^verbatim>\<open>"abc"\<close>
  (\<open>NaN\<close>).
\<close>

definition digits_Number :: "string \<Rightarrow> jsnum" where
  "digits_Number s =
     (if s \<noteq> [] \<and> list_all (\<lambda>c. 48 \<le> (of_char c :: nat) \<and> (of_char c :: nat) \<le> 57) s
      then Fin (of_nat (foldl (\<lambda>n c. 10 * n + (of_char c - 48)) 0 s))
      else NaN)"

text \<open>
  A portal with a mount point, a start button and a video id, with the given
  \<^verbatim>\<open>data-start\<close> and \<^verbatim>\<open>data-end\<close> attributes and the given behaviour of the player
  constructor.
\<close>

definition portal_of :: "string option \<Rightarrow> string option \<Rightarrow> bool \<Rightarrow> portal" where
  "portal_of ds de thr =
     \<lparr>mount = Some ''m'', startBtn = True, youtube_id = Some ''abc'',
      data_start = ds, data_end = de, ctor_throws = thr, random_hex = ''1f''\<rparr>"

text \<open>The closure \<open>portal_of\<close> yields at index 0, in a given state.\<close>

definition ctrl_of ::
  "jsnum \<Rightarrow> jsnum \<Rightarrow> bool \<Rightarrow> nat option \<Rightarrow> bool \<Rightarrow> player_call list \<Rightarrow> controller" where
  "ctrl_of st en reduce timer playing calls =
     \<lparr>pid = 0, mount_id = ''m'', videoId = ''abc'', c_start = st, c_end = en,
      c_reduce = reduce, playerVars = make_playerVars reduce st en, loopTimer = timer,
      is_playing = playing, click_listener = True, io_observing = True,
      pagehide_listener = True, issued = calls\<rparr>"

text \<open>
  An \<^verbatim>\<open>img[data-src]\<close> element with the given \<^verbatim>\<open>data-src\<close>, \<^verbatim>\<open>src\<close> and holder.
\<close>

definition element_of :: "string option \<Rightarrow> string option \<Rightarrow> nat option \<Rightarrow> element" where
  "element_of ds sr h = \<lparr>el_data_src = ds, el_src = sr, el_holder = h\<rparr>"

text \<open>A candidate in a given state, as \<open>element_of\<close> with holder 0 yields it.\<close>

definition img_of ::
  "string \<Rightarrow> string option \<Rightarrow> nat \<Rightarrow> handler list \<Rightarrow> img" where
  "img_of ds sr n hs =
     \<lparr>data_src = Some ds, src = sr, listeners = n, holder = Some 0, observed = False,
      fired = hs\<rparr>"

section \<open>Invariant of the smart media loader\<close>




section \<open>The invariants hold on every page the script can reach\<close>

lemma timers_of_clear_other:
  assumes "win_ok w" "timers_of p w = [t]" "q \<noteq> p"
  shows "timers_of q (clearInterval t w) = timers_of q w"
proof -
  have "(t, p) \<in> set (intervals w)"
  proof -
    have "t \<in> set (timers_of p w)" using assms(2) by simp
    then show ?thesis by (auto simp: timers_of_def)
  qed
  moreover have "distinct (map fst (intervals w))" using assms(1) by (simp add: win_ok_def)
  ultimately have ne: "\<forall>e \<in> set (intervals w). snd e = q \<longrightarrow> fst e \<noteq> t"
    using assms(3) by (metis eq_key_imp_eq_value prod.collapse)
  have "filter (\<lambda>e. snd e = q) (filter (\<lambda>e. fst e \<noteq> t) (intervals w)) = filter (\<lambda>e. snd e = q) (intervals w)"
    unfolding filter_filter by (rule filter_cong) (use ne in auto)
  then show ?thesis by (simp add: timers_of_def clearInterval_def)
qed

lemma timers_of_clear_self:
  assumes "timers_of p w = [t]"
  shows "timers_of p (clearInterval t w) = []"
proof -
  have "map fst (filter (\<lambda>e. fst e \<noteq> t) (filter (\<lambda>e. snd e = p) (intervals w))) = filter (\<lambda>x. x \<noteq> t) (map fst (filter (\<lambda>e. snd e = p) (intervals w)))"
    by (simp add: filter_map comp_def)
  also have "\<dots> = []" using assms by (simp add: timers_of_def)
  finally show ?thesis
    by (simp add: timers_of_def clearInterval_def filter_filter conj_commute)
qed

lemma win_ok_clear: "win_ok w \<Longrightarrow> win_ok (clearInterval t w)"
  by (auto simp: win_ok_def clearInterval_def distinct_map_filter)

lemma timer_positive:
  assumes "win_ok w" "timers_of p w = [t]"
  shows "t \<noteq> 0"
proof -
  have "t \<in> set (timers_of p w)" using assms(2) by simp
  then obtain e where "e \<in> set (intervals w)" "fst e = t" by (auto simp: timers_of_def)
  then show ?thesis using assms(1) by (auto simp: win_ok_def)
qed

lemma clearLoop_ok: "handler_ok clearLoop"
  unfolding handler_ok_def
proof (intro allI impI)
  fix w c assume a: "win_ok w \<and> ctrl_ok w c"
  show "win_ok (fst (clearLoop (w, c))) \<and> ctrl_ok (fst (clearLoop (w, c))) (snd (clearLoop (w, c))) \<and>
      pid (snd (clearLoop (w, c))) = pid c \<and>
      (\<forall>q. q \<noteq> pid c \<longrightarrow> timers_of q (fst (clearLoop (w, c))) = timers_of q w)"
  proof (cases "loopTimer c")
    case None
    then show ?thesis using a by (simp add: clearLoop_def)
  next
    case (Some t)
    then have tm: "timers_of (pid c) w = [t]" using a by (simp add: ctrl_ok_def)
    have nz: "t \<noteq> 0" using timer_positive a tm by blast
    show ?thesis using Some nz a tm
      by (simp add: clearLoop_def win_ok_clear ctrl_ok_def timers_of_clear_self timers_of_clear_other)
  qed
qed

lemma win_ok_set:
  assumes "win_ok w"
  shows "win_ok (snd (setInterval p w))"
proof -
  have "\<forall>e \<in> set (intervals w). fst e \<noteq> Suc (counter w)"
    using assms by (fastforce simp: win_ok_def)
  then show ?thesis using assms
    by (auto simp: win_ok_def setInterval_def Let_def)
qed

lemma timers_of_set:
  "timers_of q (snd (setInterval p w)) = timers_of q w @ (if q = p then [fst (setInterval p w)] else [])"
  by (simp add: timers_of_def setInterval_def Let_def)

lemma ensureLoop_ok: "handler_ok ensureLoop"
  unfolding handler_ok_def
proof (intro allI impI)
  fix w c assume a: "win_ok w \<and> ctrl_ok w c"
  let ?r = "clearLoop (w, c)"
  have r: "win_ok (fst ?r)" "ctrl_ok (fst ?r) (snd ?r)" "pid (snd ?r) = pid c"
      "\<forall>q. q \<noteq> pid c \<longrightarrow> timers_of q (fst ?r) = timers_of q w"
    using clearLoop_ok a unfolding handler_ok_def by blast+
  have n: "loopTimer (snd ?r) = None"
    using a timer_positive[of w "pid c"]
    by (auto simp: clearLoop_def ctrl_ok_def split: option.splits)
  then have e: "timers_of (pid c) (fst ?r) = []" using r(2,3) by (simp add: ctrl_ok_def)
  show "win_ok (fst (ensureLoop (w, c))) \<and> ctrl_ok (fst (ensureLoop (w, c))) (snd (ensureLoop (w, c))) \<and>
      pid (snd (ensureLoop (w, c))) = pid c \<and>
      (\<forall>q. q \<noteq> pid c \<longrightarrow> timers_of q (fst (ensureLoop (w, c))) = timers_of q w)"
  proof (cases "valid_range c")
    case False
    then show ?thesis using a by (simp add: ensureLoop_def)
  next
    case True
    then show ?thesis using r e
      by (simp add: ensureLoop_def Let_def win_ok_set timers_of_set ctrl_ok_def)
  qed
qed

lemma pure_h_ok: "keeps_timer g \<Longrightarrow> handler_ok (pure_h g)"
  by (simp add: handler_ok_def pure_h_def keeps_timer_def ctrl_ok_def)

lemma call_keeps: "pid (call k c) = pid c" "loopTimer (call k c) = loopTimer c"
  by (simp_all add: call_def)

lemma onReady_keeps: "keeps_timer (onReady m)"
  by (simp add: keeps_timer_def onReady_def Let_def call_keeps split: resp.splits)

lemma startClick_keeps: "keeps_timer (startClick m)"
  by (simp add: keeps_timer_def startClick_def Let_def call_keeps split: resp.splits)

lemma loopTick_keeps: "keeps_timer (loopTick r)"
  by (simp add: keeps_timer_def loopTick_def Let_def call_keeps split: reading.splits)

lemma fold_pause_keeps:
  "pid (fold (\<lambda>b c'. if b then c' else call PauseVideo c') es c) = pid c \<and>
   loopTimer (fold (\<lambda>b c'. if b then c' else call PauseVideo c') es c) = loopTimer c"
  by (induction es arbitrary: c) (simp_all add: call_keeps)

lemma onIntersect_keeps: "keeps_timer (onIntersect es)"
  by (simp add: keeps_timer_def onIntersect_def fold_pause_keeps)

lemma onStateChange_ok: "handler_ok (onStateChange st sk)"
  unfolding handler_ok_def
proof (intro allI impI)
  fix w c assume a: "win_ok w \<and> ctrl_ok w c"
  let ?c = "c\<lparr>is_playing := True\<rparr>"
  have b: "win_ok w \<and> ctrl_ok w ?c" using a by (simp add: ctrl_ok_def)
  have r: "win_ok (fst (ensureLoop (w, ?c)))" "ctrl_ok (fst (ensureLoop (w, ?c))) (snd (ensureLoop (w, ?c)))"
     "pid (snd (ensureLoop (w, ?c))) = pid c"
      "\<forall>q. q \<noteq> pid c \<longrightarrow> timers_of q (fst (ensureLoop (w, ?c))) = timers_of q w"
    using ensureLoop_ok b unfolding handler_ok_def by fastforce+
  show "win_ok (fst (onStateChange st sk (w, c))) \<and> ctrl_ok (fst (onStateChange st sk (w, c))) (snd (onStateChange st sk (w, c))) \<and>
      pid (snd (onStateChange st sk (w, c))) = pid c \<and>
      (\<forall>q. q \<noteq> pid c \<longrightarrow> timers_of q (fst (onStateChange st sk (w, c))) = timers_of q w)"
    using a r
    by (simp add: onStateChange_def Let_def ctrl_ok_def call_keeps split: resp.splits)
qed

lemma onPagehide_ok: "handler_ok onPagehide"
  unfolding handler_ok_def
proof (intro allI impI)
  fix w c assume a: "win_ok w \<and> ctrl_ok w c"
  have r: "win_ok (fst (clearLoop (w, c)))" "ctrl_ok (fst (clearLoop (w, c))) (snd (clearLoop (w, c)))"
     "pid (snd (clearLoop (w, c))) = pid c"
      "\<forall>q. q \<noteq> pid c \<longrightarrow> timers_of q (fst (clearLoop (w, c))) = timers_of q w"
    using clearLoop_ok a unfolding handler_ok_def by blast+
  show "win_ok (fst (onPagehide (w, c))) \<and> ctrl_ok (fst (onPagehide (w, c))) (snd (onPagehide (w, c))) \<and>
      pid (snd (onPagehide (w, c))) = pid c \<and>
      (\<forall>q. q \<noteq> pid c \<longrightarrow> timers_of q (fst (onPagehide (w, c))) = timers_of q w)"
    using a r by (simp add: onPagehide_def Let_def ctrl_ok_def)
qed

lemma dispatch_ok:
  assumes "handler_ok f"
  shows "win_ok w \<Longrightarrow> distinct (map pid cs) \<Longrightarrow> \<forall>c \<in> set cs. ctrl_ok w c \<Longrightarrow>
     win_ok (fst (dispatch sel f w cs)) \<and>
     map pid (snd (dispatch sel f w cs)) = map pid cs \<and>
     (\<forall>c \<in> set (snd (dispatch sel f w cs)). ctrl_ok (fst (dispatch sel f w cs)) c) \<and>
     (\<forall>q. q \<notin> set (map pid cs) \<longrightarrow> timers_of q (fst (dispatch sel f w cs)) = timers_of q w)"
proof (induction cs arbitrary: w)
  case Nil
  then show ?case by simp
next
  case (Cons c cs)
  let ?wc = "if sel (pid c) then f (w, c) else (w, c)"
  have h: "win_ok (fst ?wc)" "ctrl_ok (fst ?wc) (snd ?wc)" "pid (snd ?wc) = pid c"
      "\<forall>q. q \<noteq> pid c \<longrightarrow> timers_of q (fst ?wc) = timers_of q w"
    using assms Cons.prems unfolding handler_ok_def by auto
  have rest: "\<forall>c' \<in> set cs. ctrl_ok (fst ?wc) c'"
  proof
    fix c' assume m: "c' \<in> set cs"
    then have "pid c' \<noteq> pid c" using Cons.prems(2) by (metis distinct.simps(2) image_eqI list.simps(9) set_map)
    then have "timers_of (pid c') (fst ?wc) = timers_of (pid c') w" using h(4) by blast
    then show "ctrl_ok (fst ?wc) c'" using Cons.prems(3) m by (simp add: ctrl_ok_def)
  qed
  have d: "distinct (map pid cs)" using Cons.prems(2) by simp
  note ih = Cons.IH[OF h(1) d rest]
  let ?r = "dispatch sel f (fst ?wc) cs"
  have pc: "pid c \<notin> set (map pid cs)" using Cons.prems(2) by simp
  then have "timers_of (pid c) (fst ?r) = timers_of (pid c) (fst ?wc)" using ih by blast
  then have hd: "ctrl_ok (fst ?r) (snd ?wc)" using h(2,3) by (simp add: ctrl_ok_def)
  have fr: "\<forall>q. q \<notin> set (map pid (c # cs)) \<longrightarrow> timers_of q (fst ?r) = timers_of q w"
    using ih h(4) by auto
  show ?case using ih hd fr h(3) by (simp add: Let_def)
qed

lemma on_ctrl_ok: "handler_ok f \<Longrightarrow> page_ok pg \<Longrightarrow> page_ok (on_ctrl sel f pg)"
  using dispatch_ok[of f "win pg" "ctrls pg" sel]
  by (simp add: page_ok_def on_ctrl_def Let_def)

lemma step_ok: "page_ok pg \<Longrightarrow> page_ok (step e pg)"
  by (cases e)
     (simp_all add: on_ctrl_ok pure_h_ok onReady_keeps startClick_keeps loopTick_keeps
        onIntersect_keeps onStateChange_ok onPagehide_ok split: option.splits)

lemma run_ok: "page_ok pg \<Longrightarrow> page_ok (run es pg)"
  unfolding run_def by (induction es arbitrary: pg) (simp_all add: step_ok)

lemma dispatch_post:
  assumes "handler_ok f"
    and "\<And>w c. win_ok w \<Longrightarrow> ctrl_ok w c \<Longrightarrow> Q c \<Longrightarrow> R (snd (if sel (pid c) then f (w, c) else (w, c)))"
  shows "win_ok w \<Longrightarrow> distinct (map pid cs) \<Longrightarrow> \<forall>c \<in> set cs. ctrl_ok w c \<and> Q c \<Longrightarrow>
     \<forall>c \<in> set (snd (dispatch sel f w cs)). R c"
proof (induction cs arbitrary: w)
  case Nil
  then show ?case by simp
next
  case (Cons c cs)
  let ?wc = "if sel (pid c) then f (w, c) else (w, c)"
  have h: "win_ok (fst ?wc)" "\<forall>q. q \<noteq> pid c \<longrightarrow> timers_of q (fst ?wc) = timers_of q w"
    using assms(1) Cons.prems unfolding handler_ok_def by auto
  have rest: "\<forall>c' \<in> set cs. ctrl_ok (fst ?wc) c' \<and> Q c'"
  proof
    fix c' assume m: "c' \<in> set cs"
    then have "pid c' \<noteq> pid c" using Cons.prems(2)
      by (metis distinct.simps(2) image_eqI list.simps(9) set_map)
    then have "timers_of (pid c') (fst ?wc) = timers_of (pid c') w" using h(2) by blast
    then show "ctrl_ok (fst ?wc) c' \<and> Q c'" using Cons.prems(3) m by (simp add: ctrl_ok_def)
  qed
  have d: "distinct (map pid cs)" using Cons.prems(2) by simp
  note ih = Cons.IH[OF h(1) d rest]
  have "R (snd ?wc)" using assms(2)[of w c] Cons.prems by simp
  then show ?case using ih by (simp add: Let_def)
qed

lemma on_ctrl_post:
  assumes "handler_ok f" "page_ok pg" "\<forall>c \<in> set (ctrls pg). Q c"
    and "\<And>w c. win_ok w \<Longrightarrow> ctrl_ok w c \<Longrightarrow> Q c \<Longrightarrow> sel (pid c) \<Longrightarrow> R (snd (f (w, c)))"
    and "\<And>c. Q c \<Longrightarrow> \<not> sel (pid c) \<Longrightarrow> R c"
  shows "\<forall>c \<in> set (ctrls (on_ctrl sel f pg)). R c"
proof -
  have "\<forall>c \<in> set (snd (dispatch sel f (win pg) (ctrls pg))). R c"
    by (rule dispatch_post[where Q = Q, OF assms(1)])
       (use assms in \<open>auto simp: page_ok_def\<close>)
  then show ?thesis by (simp add: on_ctrl_def Let_def)
qed

lemma step_stable:
  assumes "stable Q" "page_ok pg" "\<forall>c \<in> set (ctrls pg). Q c" "e = PageHide \<longrightarrow> hide_stable Q"
  shows "\<forall>c \<in> set (ctrls (step e pg)). Q c"
proof (cases e)
  case (PlayerReady i m)
  show ?thesis unfolding PlayerReady step.simps
    by (rule on_ctrl_post[where Q = Q, OF pure_h_ok[OF onReady_keeps] assms(2,3)])
       (use assms(1) in \<open>auto simp: stable_def pure_h_def\<close>)
next
  case (StateChange i st sk)
  show ?thesis unfolding StateChange step.simps
    by (rule on_ctrl_post[where Q = Q, OF onStateChange_ok assms(2,3)])
       (use assms(1) in \<open>auto simp: stable_def\<close>)
next
  case (StartClick i m)
  show ?thesis unfolding StartClick step.simps
    by (rule on_ctrl_post[where Q = Q, OF pure_h_ok[OF startClick_keeps] assms(2,3)])
       (use assms(1) in \<open>auto simp: stable_def pure_h_def\<close>)
next
  case (Intersect i es)
  show ?thesis unfolding Intersect step.simps
    by (rule on_ctrl_post[where Q = Q, OF pure_h_ok[OF onIntersect_keeps] assms(2,3)])
       (use assms(1) in \<open>auto simp: stable_def pure_h_def\<close>)
next
  case (Tick t r)
  show ?thesis
  proof (cases "map_of (intervals (win pg)) t")
    case None
    then show ?thesis using Tick assms(3) by simp
  next
    case (Some i)
    have "\<forall>c \<in> set (ctrls (on_ctrl (\<lambda>j. j = i) (pure_h (loopTick r)) pg)). Q c"
      by (rule on_ctrl_post[where Q = Q, OF pure_h_ok[OF loopTick_keeps] assms(2,3)])
         (use assms(1) in \<open>auto simp: stable_def pure_h_def\<close>)
    then show ?thesis using Tick Some by simp
  qed
next
  case PageHide
  show ?thesis unfolding PageHide step.simps
    by (rule on_ctrl_post[where Q = Q, OF onPagehide_ok assms(2,3)])
       (use assms(4) PageHide in \<open>auto simp: hide_stable_def\<close>)
qed

lemma run_stable:
  assumes "stable Q" "PageHide \<in> set es \<longrightarrow> hide_stable Q"
  shows "page_ok pg \<Longrightarrow> \<forall>c \<in> set (ctrls pg). Q c \<Longrightarrow> \<forall>c \<in> set (ctrls (run es pg)). Q c"
  using assms(2) unfolding run_def
proof (induction es arbitrary: pg)
  case Nil
  then show ?case by simp
next
  case (Cons e es)
  have 1: "page_ok (step e pg)" using Cons.prems(1) by (rule step_ok)
  have 2: "\<forall>c \<in> set (ctrls (step e pg)). Q c"
    by (rule step_stable[OF assms(1) Cons.prems(1,2)]) (use Cons.prems(3) in simp)
  show ?case using Cons.IH[OF 1 2] Cons.prems(3) by simp
qed

lemma mountPortal_Mounted:
  assumes "mountPortal num reduce io i p = Mounted c"
  shows "pid c = i" "c_start c = num (or_zero (data_start p))" "c_end c = num (or_zero (data_end p))"
    "c_reduce c = reduce" "playerVars c = make_playerVars reduce (c_start c) (c_end c)"
    "click_listener c = startBtn p" "io_observing c = io" "fresh c"
  using assms
  by (auto simp: mountPortal_def Let_def fresh_def split: option.splits if_splits)

lemma forEach_mount_inv:
  assumes "forEach_mount num reduce io (length pre) ps acc = (out, cs)"
    and "\<forall>c \<in> set acc. pid c < length pre \<and> bound_to num reduce io (pre @ ps) c \<and> fresh c"
    and "distinct (map pid acc)"
  shows "distinct (map pid cs) \<and> (\<forall>c \<in> set cs. bound_to num reduce io (pre @ ps) c \<and> fresh c)"
  using assms
proof (induction ps arbitrary: pre acc)
  case Nil
  then show ?case by auto
next
  case (Cons p ps)
  have len: "Suc (length pre) = length (pre @ [p])" by simp
  have app: "pre @ p # ps = (pre @ [p]) @ ps" by simp
  show ?case
  proof (cases "mountPortal num reduce io (length pre) p")
    case Skipped
    then have run: "forEach_mount num reduce io (length (pre @ [p])) ps acc = (out, cs)"
      using Cons.prems(1) by simp
    have "\<forall>c \<in> set acc. pid c < length (pre @ [p]) \<and> bound_to num reduce io ((pre @ [p]) @ ps) c \<and> fresh c"
      using Cons.prems(2) by auto
    from Cons.IH[OF run this Cons.prems(3)] show ?thesis by simp
  next
    case Faulted
    then have "cs = acc" using Cons.prems(1) by simp
    then show ?thesis using Cons.prems(2,3) by auto
  next
    case (Mounted c)
    then have run: "forEach_mount num reduce io (length (pre @ [p])) ps (acc @ [c]) = (out, cs)"
      using Cons.prems(1) by simp
    note m = mountPortal_Mounted[OF Mounted]
    have bc: "bound_to num reduce io ((pre @ [p]) @ ps) c"
      using m by (simp add: bound_to_def nth_append)
    have a: "\<forall>c' \<in> set (acc @ [c]). pid c' < length (pre @ [p]) \<and> bound_to num reduce io ((pre @ [p]) @ ps) c' \<and> fresh c'"
      using Cons.prems(2) bc m(1,8) by auto
    have d: "distinct (map pid (acc @ [c]))"
      using Cons.prems(2,3) m(1) by auto
    from Cons.IH[OF run a d] show ?thesis by simp
  qed
qed

lemma init_page:
  assumes "pg = snd (initVideoPortals num reduce io k ps)"
  shows "page_ok pg" "\<forall>c \<in> set (ctrls pg). bound_to num reduce io ps c \<and> fresh c"
proof -
  obtain out cs where r: "forEach_mount num reduce io (length ([]::portal list)) ps [] = (out, cs)"
    by (cases "forEach_mount num reduce io 0 ps []") auto
  have i: "distinct (map pid cs) \<and> (\<forall>c \<in> set cs. bound_to num reduce io ([] @ ps) c \<and> fresh c)"
    by (rule forEach_mount_inv[OF r]) simp_all
  have pg: "ctrls pg = cs" "win pg = \<lparr>counter = k, intervals = []\<rparr>"
    using assms r by (simp_all add: initVideoPortals_def)
  show "page_ok pg" using i pg
    by (auto simp: page_ok_def win_ok_def ctrl_ok_def timers_of_def fresh_def)
  show "\<forall>c \<in> set (ctrls pg). bound_to num reduce io ps c \<and> fresh c" using i pg by simp
qed

lemma fold_pause_fields:
  "c_start (fold (\<lambda>b c'. if b then c' else call PauseVideo c') es c) = c_start c"
  "c_end (fold (\<lambda>b c'. if b then c' else call PauseVideo c') es c) = c_end c"
  "c_reduce (fold (\<lambda>b c'. if b then c' else call PauseVideo c') es c) = c_reduce c"
  "playerVars (fold (\<lambda>b c'. if b then c' else call PauseVideo c') es c) = playerVars c"
  "click_listener (fold (\<lambda>b c'. if b then c' else call PauseVideo c') es c) = click_listener c"
  "io_observing (fold (\<lambda>b c'. if b then c' else call PauseVideo c') es c) = io_observing c"
  "pagehide_listener (fold (\<lambda>b c'. if b then c' else call PauseVideo c') es c) = pagehide_listener c"
  by (induction es arbitrary: c) (simp_all add: call_def)

lemma clearLoop_fields:
  "pid (snd (clearLoop wc)) = pid (snd wc)"
  "c_start (snd (clearLoop wc)) = c_start (snd wc)"
  "c_end (snd (clearLoop wc)) = c_end (snd wc)"
  "c_reduce (snd (clearLoop wc)) = c_reduce (snd wc)"
  "playerVars (snd (clearLoop wc)) = playerVars (snd wc)"
  "click_listener (snd (clearLoop wc)) = click_listener (snd wc)"
  "io_observing (snd (clearLoop wc)) = io_observing (snd wc)"
  "pagehide_listener (snd (clearLoop wc)) = pagehide_listener (snd wc)"
  "is_playing (snd (clearLoop wc)) = is_playing (snd wc)"
  "issued (snd (clearLoop wc)) = issued (snd wc)"
  by (simp_all add: clearLoop_def split: option.splits)

lemma ensureLoop_fields:
  "pid (snd (ensureLoop wc)) = pid (snd wc)"
  "c_start (snd (ensureLoop wc)) = c_start (snd wc)"
  "c_end (snd (ensureLoop wc)) = c_end (snd wc)"
  "c_reduce (snd (ensureLoop wc)) = c_reduce (snd wc)"
  "playerVars (snd (ensureLoop wc)) = playerVars (snd wc)"
  "click_listener (snd (ensureLoop wc)) = click_listener (snd wc)"
  "io_observing (snd (ensureLoop wc)) = io_observing (snd wc)"
  "pagehide_listener (snd (ensureLoop wc)) = pagehide_listener (snd wc)"
  "is_playing (snd (ensureLoop wc)) = is_playing (snd wc)"
  "issued (snd (ensureLoop wc)) = issued (snd wc)"
  by (simp_all add: ensureLoop_def Let_def clearLoop_fields)

lemma bound_to_stable: "stable (bound_to num reduce io ps)" "hide_stable (bound_to num reduce io ps)"
  by (auto simp: stable_def hide_stable_def bound_to_def onStateChange_def onReady_def startClick_def
      onIntersect_def loopTick_def onPagehide_def Let_def call_def fold_pause_fields fold_pause_keeps
      clearLoop_fields ensureLoop_fields split: resp.splits reading.splits)

lemma valid_range_cong: "c_start c' = c_start c \<Longrightarrow> c_end c' = c_end c \<Longrightarrow> valid_range c' = valid_range c"
  by (simp add: valid_range_def)

lemma clearLoop_None:
  assumes "win_ok w" "ctrl_ok w c"
  shows "loopTimer (snd (clearLoop (w, c))) = None"
  using assms timer_positive[of w "pid c"]
  by (auto simp: clearLoop_def ctrl_ok_def split: option.splits)

lemma idle_stable: "stable idle_if_unbounded" "hide_stable idle_if_unbounded"
proof -
  have vr: "\<And>c k. valid_range (call k c) = valid_range c"
    by (simp add: valid_range_def call_def)
  have vf: "\<And>es c. valid_range (fold (\<lambda>b c'. if b then c' else call PauseVideo c') es c) = valid_range c"
    by (simp add: valid_range_def fold_pause_fields)
  have vi: "\<And>c b. valid_range (c\<lparr>is_playing := b\<rparr>) = valid_range c"
    by (simp add: valid_range_def)
  have vl: "\<And>c x. valid_range (c\<lparr>loopTimer := x\<rparr>) = valid_range c"
    by (simp add: valid_range_def)
  have vc: "\<And>wc. valid_range (snd (clearLoop wc)) = valid_range (snd wc)"
    by (simp add: valid_range_def clearLoop_fields)
  have ve: "\<And>w c. idle_if_unbounded c \<Longrightarrow> idle_if_unbounded (snd (ensureLoop (w, c)))"
    by (simp add: idle_if_unbounded_def ensureLoop_def Let_def vl vc)
  have vk: "\<And>c k. idle_if_unbounded (call k c) = idle_if_unbounded c"
    by (simp add: idle_if_unbounded_def vr call_keeps)
  have vp: "\<And>c b. idle_if_unbounded (c\<lparr>is_playing := b\<rparr>) = idle_if_unbounded c"
    by (simp add: idle_if_unbounded_def vi)
  have vo: "\<And>es c. idle_if_unbounded (fold (\<lambda>b c'. if b then c' else call PauseVideo c') es c) = idle_if_unbounded c"
    by (simp add: idle_if_unbounded_def vf fold_pause_keeps)
  show "stable idle_if_unbounded"
    unfolding stable_def
    by (auto simp: onStateChange_def onReady_def startClick_def onIntersect_def loopTick_def
        Let_def vk vp vo ve split: resp.splits reading.splits)
  show "hide_stable idle_if_unbounded"
    unfolding hide_stable_def idle_if_unbounded_def
    by (auto simp: onPagehide_def Let_def clearLoop_None)
qed

lemma armed_stable: "stable armed"
  by (auto simp: stable_def armed_def onStateChange_def onReady_def startClick_def
      onIntersect_def loopTick_def Let_def call_def fold_pause_fields
      clearLoop_fields ensureLoop_fields split: resp.splits reading.splits)

section \<open>What holds on every reachable page\<close>

lemma reach:
  assumes "pg = run es (snd (initVideoPortals num reduce io k ps))"
  shows "page_ok pg" "\<forall>c \<in> set (ctrls pg). bound_to num reduce io ps c"
    "\<forall>c \<in> set (ctrls pg). idle_if_unbounded c"
    "PageHide \<notin> set es \<Longrightarrow> \<forall>c \<in> set (ctrls pg). armed c"
proof -
  note i = init_page[OF refl, of num reduce io k ps]
  show "page_ok pg" unfolding assms by (rule run_ok[OF i(1)])
  show "\<forall>c \<in> set (ctrls pg). bound_to num reduce io ps c" unfolding assms
    by (rule run_stable[OF bound_to_stable(1) _ i(1)]) (use i(2) bound_to_stable(2) in auto)
  show "\<forall>c \<in> set (ctrls pg). idle_if_unbounded c" unfolding assms
    by (rule run_stable[OF idle_stable(1) _ i(1)])
       (use i(2) idle_stable(2) in \<open>auto simp: idle_if_unbounded_def fresh_def\<close>)
  show "\<forall>c \<in> set (ctrls pg). armed c" if "PageHide \<notin> set es" unfolding assms
    by (rule run_stable[OF armed_stable _ i(1)])
       (use i(2) that in \<open>auto simp: armed_def fresh_def\<close>)
qed

lemma ctrl_ok_timers:
  "ctrl_ok w c \<Longrightarrow> loopTimer c = None \<Longrightarrow> timers_of (pid c) w = []"
  by (simp add: ctrl_ok_def)

lemma dispatch_pure:
  "dispatch sel (pure_h g) w cs = (w, map (\<lambda>c. if sel (pid c) then g c else c) cs)"
  by (induction cs arbitrary: w) (simp_all add: Let_def pure_h_def)

lemma map_of_timer:
  assumes "win_ok w" "t \<in> set (timers_of p w)"
  shows "map_of (intervals w) t = Some p"
proof -
  have "(t, p) \<in> set (intervals w)" using assms(2) by (auto simp: timers_of_def)
  moreover have "distinct (map fst (intervals w))" using assms(1) by (simp add: win_ok_def)
  ultimately show ?thesis by simp
qed

lemma run_Nil_ctrls: "ctrls pg = [] \<Longrightarrow> ctrls (run es pg) = []"
  unfolding run_def
proof (induction es arbitrary: pg)
  case Nil
  then show ?case by simp
next
  case (Cons e es)
  have "ctrls (step e pg) = []" using Cons.prems
    by (cases e) (simp_all add: on_ctrl_def Let_def split: option.splits)
  then show ?case using Cons.IH by simp
qed

subsection \<open>Sample pages, evaluated\<close>

lemma digits_Number_samples:
  "digits_Number ''0'' = Fin 0" "digits_Number ''10'' = Fin 10" "digits_Number ''20'' = Fin 20"
  "digits_Number ''abc'' = NaN"
  by (simp_all add: digits_Number_def)

lemma sample_playing:
  "run [StateChange 0 PLAYING Done]
     (snd (initVideoPortals digits_Number False True 0 [portal_of (Some ''10'') (Some ''20'') False]))
   = \<lparr>win = \<lparr>counter = 1, intervals = [(1, 0)]\<rparr>,
      ctrls = [ctrl_of (Fin 10) (Fin 20) False (Some 1) True []]\<rparr>"
  by (simp add: run_def initVideoPortals_def mountPortal_def portal_of_def ctrl_of_def Let_def
      or_zero_def digits_Number_samples on_ctrl_def onStateChange_def ensureLoop_def valid_range_def
      js_gt_def clearLoop_def setInterval_def PLAYING_def ENDED_def)

lemma sample_unbounded:
  "run [StateChange 0 PLAYING Done, StateChange 0 PLAYING Done]
     (snd (initVideoPortals digits_Number False True 0 [portal_of (Some ''10'') None False]))
   = \<lparr>win = \<lparr>counter = 0, intervals = []\<rparr>,
      ctrls = [ctrl_of (Fin 10) (Fin 0) False None True []]\<rparr>"
  by (simp add: run_def initVideoPortals_def mountPortal_def portal_of_def ctrl_of_def Let_def
      or_zero_def digits_Number_samples on_ctrl_def onStateChange_def ensureLoop_def valid_range_def
      js_gt_def PLAYING_def ENDED_def)

lemma sample_reduced:
  "run [PlayerReady 0 Done]
     (snd (initVideoPortals digits_Number True True 0 [portal_of None None False]))
   = \<lparr>win = \<lparr>counter = 0, intervals = []\<rparr>,
      ctrls = [ctrl_of (Fin 0) (Fin 0) True None False [Mute]]\<rparr>"
  by (simp add: run_def initVideoPortals_def mountPortal_def portal_of_def ctrl_of_def Let_def
      or_zero_def digits_Number_samples on_ctrl_def onReady_def pure_h_def call_def)

lemma sample_nan:
  "run [StateChange 0 PLAYING Done]
     (snd (initVideoPortals digits_Number False True 0 [portal_of (Some ''abc'') None False]))
   = \<lparr>win = \<lparr>counter = 0, intervals = []\<rparr>,
      ctrls = [ctrl_of NaN (Fin 0) False None True []]\<rparr>"
  by (simp add: run_def initVideoPortals_def mountPortal_def portal_of_def ctrl_of_def Let_def
      or_zero_def digits_Number_samples on_ctrl_def onStateChange_def ensureLoop_def valid_range_def
      js_gt_def PLAYING_def ENDED_def)

section \<open>Containment of a construction fault\<close>

text \<open>
  Claim C1 says that a fault thrown by the player constructor for portal A does not keep
  portal B from being initialised and reaching Playing. On the page of two portals below,
  the constructor throws for the first one: the exception leaves the \<^verbatim>\<open>forEach\<close>
  callback, the iteration ends, and the second portal gets no closure at all, so that no
  later event can mark it as playing. Every other call into the player is wrapped in
  \<^verbatim>\<open>try\<close>/\<^verbatim>\<open>catch\<close>; the constructor call is not.
\<close>

theorem construction_fault_ends_forEach:
  "initVideoPortals digits_Number False True 0
      [portal_of None None True, portal_of None None False]
     = (Threw, \<lparr>win = \<lparr>counter = 0, intervals = []\<rparr>, ctrls = []\<rparr>)
   \<and> ctrls (run es (snd (initVideoPortals digits_Number False True 0
      [portal_of None None True, portal_of None None False]))) = []"
proof -
  have a: "initVideoPortals digits_Number False True 0
      [portal_of None None True, portal_of None None False]
     = (Threw, \<lparr>win = \<lparr>counter = 0, intervals = []\<rparr>, ctrls = []\<rparr>)"
    by (simp add: initVideoPortals_def mountPortal_def portal_of_def Let_def)
  show ?thesis unfolding a by (simp add: run_Nil_ctrls)
qed

section \<open>Cleanup on page hide\<close>

text \<open>
  Claim C2 says that on \<^verbatim>\<open>pagehide\<close> both resources of every portal are released, the
  loop watchdog and the visibility subscription. The listener only runs \<open>clearLoop\<close>,
  and nothing in the script ever disconnects the portal's observer: on the page below the
  observer is still subscribed after \<^verbatim>\<open>pagehide\<close>.
\<close>

theorem pagehide_leaves_observer:
  "map io_observing (ctrls (step PageHide
      (snd (initVideoPortals digits_Number False True 0 [portal_of None None False])))) = [True]"
  by (simp add: initVideoPortals_def mountPortal_def portal_of_def Let_def or_zero_def
      digits_Number_samples on_ctrl_def onPagehide_def clearLoop_def)

text \<open>
  Claim C2 as the script has it: on the first \<^verbatim>\<open>pagehide\<close> of a page, whatever happened
  before, every mounted portal ends with no loop timer (the variable is \<^verbatim>\<open>null\<close> and the
  window holds no interval of the portal); the visibility subscription stays as it was
  created.
\<close>

theorem pagehide_cancels_watchdog_only:
  assumes "PageHide \<notin> set es"
    and "pg = step PageHide (run es (snd (initVideoPortals num reduce io k ps)))"
  shows "\<forall>c \<in> set (ctrls pg).
           loopTimer c = None \<and> timers_of (pid c) (win pg) = [] \<and> io_observing c = io"
proof -
  let ?q = "run es (snd (initVideoPortals num reduce io k ps))"
  note r = reach[OF refl, of es num reduce io k ps]
  have ok: "page_ok pg" unfolding assms(2) by (rule step_ok[OF r(1)])
  have q: "\<forall>c \<in> set (ctrls ?q). armed c \<and> bound_to num reduce io ps c"
    using r(2) r(4)[OF assms(1)] by blast
  have "\<forall>c \<in> set (ctrls (on_ctrl (\<lambda>j. True) onPagehide ?q)).
          loopTimer c = None \<and> io_observing c = io"
    by (rule on_ctrl_post[where Q = "\<lambda>c. armed c \<and> bound_to num reduce io ps c",
            OF onPagehide_ok r(1) q])
       (simp_all add: armed_def onPagehide_def Let_def clearLoop_None clearLoop_fields bound_to_def)
  then have "\<forall>c \<in> set (ctrls pg). loopTimer c = None \<and> io_observing c = io"
    unfolding assms(2) by simp
  then show ?thesis using ok by (auto simp: page_ok_def ctrl_ok_timers)
qed

theorem pagehide_cancels_watchdog_only_witness:
  "PageHide \<notin> set [StateChange 0 PLAYING Done]
   \<and> map loopTimer (ctrls (run [StateChange 0 PLAYING Done]
        (snd (initVideoPortals digits_Number False True 0
           [portal_of (Some ''10'') (Some ''20'') False]))))
       = [Some 1]
   \<and> map loopTimer (ctrls (step PageHide (run [StateChange 0 PLAYING Done]
        (snd (initVideoPortals digits_Number False True 0
           [portal_of (Some ''10'') (Some ''20'') False])))))
       = [None]
   \<and> intervals (win (step PageHide (run [StateChange 0 PLAYING Done]
        (snd (initVideoPortals digits_Number False True 0
           [portal_of (Some ''10'') (Some ''20'') False])))))
       = []
   \<and> map io_observing (ctrls (step PageHide (run [StateChange 0 PLAYING Done]
        (snd (initVideoPortals digits_Number False True 0
           [portal_of (Some ''10'') (Some ''20'') False])))))
       = [True]"
proof -
  let ?pg = "step PageHide (run [StateChange 0 PLAYING Done]
        (snd (initVideoPortals digits_Number False True 0
           [portal_of (Some ''10'') (Some ''20'') False])))"
  have h: "PageHide \<notin> set [StateChange 0 PLAYING Done]" by simp
  have e: "map loopTimer (ctrls (run [StateChange 0 PLAYING Done]
        (snd (initVideoPortals digits_Number False True 0
           [portal_of (Some ''10'') (Some ''20'') False]))))
       = [Some 1]"
    unfolding sample_playing by (simp add: ctrl_of_def)
  have l: "length (ctrls ?pg) = 1" "map pid (ctrls ?pg) = [0]"
    "intervals (win ?pg) = filter (\<lambda>e. snd e = 0) (intervals (win ?pg))"
    unfolding sample_playing
    by (simp_all add: on_ctrl_def Let_def onPagehide_def clearLoop_def clearInterval_def ctrl_of_def)
  note t = pagehide_cancels_watchdog_only[OF h refl, of digits_Number False True 0
        "[portal_of (Some ''10'') (Some ''20'') False]"]
  obtain c where c: "ctrls ?pg = [c]" using l(1) by (cases "ctrls ?pg") simp_all
  have "loopTimer c = None" "timers_of (pid c) (win ?pg) = []" "io_observing c = True" "pid c = 0"
    using t l(2) unfolding c by simp_all
  then have "map loopTimer (ctrls ?pg) = [None]" "map io_observing (ctrls ?pg) = [True]"
    "filter (\<lambda>e. snd e = 0) (intervals (win ?pg)) = []"
    unfolding c by (simp_all add: timers_of_def)
  then show ?thesis using h e l(3) by simp
qed

section \<open>The loop watchdog\<close>

text \<open>
  Claim C5: for a portal with \<open>rangeStart = 10\<close> and \<open>rangeEnd = 20\<close>, a watchdog tick
  that reads a position of at least 19.85 issues exactly one seek to 10, and a tick that
  reads a smaller position issues none. The portal has at most one active timer at any
  moment, and a tick of that timer runs the check once, on this portal's closure only.
  (With exact numbers \<open>20 - 0.15\<close> is 19.85; in IEEE doubles the difference rounds to the
  double nearest to 19.85, which is the smallest double not below it, so the same
  positions pass the test.)
\<close>

theorem watchdog_tick_seeks_once:
  assumes "c \<in> set (ctrls pg)"
    and "pg = run es (snd (initVideoPortals num reduce io k ps))"
    and "c_start c = Fin 10" and "c_end c = Fin 20"
  shows "length (timers_of (pid c) (win pg)) \<le> 1
     \<and> (\<forall>tid \<in> set (timers_of (pid c) (win pg)).
          ctrls (step (Tick tid r) pg)
            = map (\<lambda>c'. if pid c' = pid c then loopTick r c' else c') (ctrls pg))
     \<and> issued (loopTick (Reads (Fin t)) c)
          = issued c @ GetCurrentTime # (if 1985 / 100 \<le> t then [SeekTo (Fin 10) True] else [])"
proof -
  note r = reach(1)[OF assms(2)]
  have ok: "ctrl_ok (win pg) c" "win_ok (win pg)" using r assms(1) by (auto simp: page_ok_def)
  have 1: "length (timers_of (pid c) (win pg)) \<le> 1"
    using ok(1) by (simp add: ctrl_ok_def split: option.splits)
  have 2: "\<forall>tid \<in> set (timers_of (pid c) (win pg)).
          ctrls (step (Tick tid r) pg)
            = map (\<lambda>c'. if pid c' = pid c then loopTick r c' else c') (ctrls pg)"
    using map_of_timer[OF ok(2)] by (simp add: on_ctrl_def dispatch_pure)
  have 3: "issued (loopTick (Reads (Fin t)) c)
          = issued c @ GetCurrentTime # (if 1985 / 100 \<le> t then [SeekTo (Fin 10) True] else [])"
    using assms(3,4) by (simp add: loopTick_def Let_def call_def js_ge_def not_less)
  show ?thesis using 1 2 3 by blast
qed

theorem watchdog_tick_seeks_once_witness:
  "ctrl_of (Fin 10) (Fin 20) False (Some 1) True []
     \<in> set (ctrls (run [StateChange 0 PLAYING Done]
        (snd (initVideoPortals digits_Number False True 0
           [portal_of (Some ''10'') (Some ''20'') False]))))
   \<and> issued (loopTick (Reads (Fin (1985 / 100))) (ctrl_of (Fin 10) (Fin 20) False (Some 1) True []))
       = [GetCurrentTime, SeekTo (Fin 10) True]
   \<and> issued (loopTick (Reads (Fin (1984 / 100))) (ctrl_of (Fin 10) (Fin 20) False (Some 1) True []))
       = [GetCurrentTime]
   \<and> timers_of 0 (win (run [StateChange 0 PLAYING Done]
        (snd (initVideoPortals digits_Number False True 0
           [portal_of (Some ''10'') (Some ''20'') False])))) = [1]
   \<and> map issued (ctrls (step (Tick 1 (Reads (Fin 20))) (run [StateChange 0 PLAYING Done]
        (snd (initVideoPortals digits_Number False True 0
           [portal_of (Some ''10'') (Some ''20'') False])))))
       = [[GetCurrentTime, SeekTo (Fin 10) True]]"
proof -
  let ?c = "ctrl_of (Fin 10) (Fin 20) False (Some 1) True []"
  let ?pg = "run [StateChange 0 PLAYING Done]
        (snd (initVideoPortals digits_Number False True 0
           [portal_of (Some ''10'') (Some ''20'') False]))"
  have m: "?c \<in> set (ctrls ?pg)" unfolding sample_playing by simp
  have s: "c_start ?c = Fin 10" "c_end ?c = Fin 20" by (simp_all add: ctrl_of_def)
  have t: "timers_of 0 (win ?pg) = [1]" unfolding sample_playing by (simp add: timers_of_def)
  have p: "pid ?c = 0" by (simp add: ctrl_of_def)
  note w1 = watchdog_tick_seeks_once[OF m refl s, of "Reads (Fin 20)" "1985 / 100"]
  note w2 = watchdog_tick_seeks_once[OF m refl s, of "Reads (Fin 20)" "1984 / 100"]
  have a: "issued (loopTick (Reads (Fin (1985 / 100))) ?c) = [GetCurrentTime, SeekTo (Fin 10) True]"
    using w1 by (simp add: ctrl_of_def)
  have b: "issued (loopTick (Reads (Fin (1984 / 100))) ?c) = [GetCurrentTime]"
    using w2 by (simp add: ctrl_of_def)
  have "ctrls (step (Tick 1 (Reads (Fin 20))) ?pg)
      = map (\<lambda>c'. if pid c' = pid ?c then loopTick (Reads (Fin 20)) c' else c') (ctrls ?pg)"
    using w1 t p by simp
  then have c: "map issued (ctrls (step (Tick 1 (Reads (Fin 20))) ?pg))
      = [[GetCurrentTime, SeekTo (Fin 10) True]]"
    unfolding sample_playing by (simp add: ctrl_of_def loopTick_def Let_def call_def js_ge_def)
  show ?thesis using m a b t c by blast
qed

lemma invalid_cases:
  assumes "c_end c = Fin 0 \<or> js_le (c_end c) (c_start c) \<or> \<not> js_gt (c_start c) (Fin 0)"
  shows "\<not> valid_range c"
  using assms by (auto simp: valid_range_def js_gt_def js_le_def)

text \<open>
  Claim C6: a portal whose range is invalid (\<open>rangeEnd = 0\<close>, or \<open>rangeEnd \<le> rangeStart\<close>,
  or \<open>rangeStart\<close> not greater than 0) never gets a loop watchdog: in every state the page
  can reach, after any number of Playing transitions, its \<open>loopTimer\<close> is \<^verbatim>\<open>null\<close>, the
  window holds no interval of the portal, and \<open>ensureLoop\<close> returns at its guard.
\<close>

theorem invalid_range_never_starts_watchdog:
  assumes "c \<in> set (ctrls pg)"
    and "pg = run es (snd (initVideoPortals num reduce io k ps))"
    and "c_end c = Fin 0 \<or> js_le (c_end c) (c_start c) \<or> \<not> js_gt (c_start c) (Fin 0)"
  shows "loopTimer c = None \<and> timers_of (pid c) (win pg) = []
     \<and> ensureLoop (win pg, c) = (win pg, c)"
proof -
  note r = reach[OF assms(2)]
  have nv: "\<not> valid_range c" by (rule invalid_cases[OF assms(3)])
  have "loopTimer c = None" using r(3) assms(1) nv by (auto simp: idle_if_unbounded_def)
  moreover have "ctrl_ok (win pg) c" using r(1) assms(1) by (simp add: page_ok_def)
  ultimately show ?thesis using nv by (simp add: ctrl_ok_timers ensureLoop_def)
qed

theorem invalid_range_never_starts_watchdog_witness:
  "ctrl_of (Fin 10) (Fin 0) False None True []
     \<in> set (ctrls (run [StateChange 0 PLAYING Done, StateChange 0 PLAYING Done]
        (snd (initVideoPortals digits_Number False True 0 [portal_of (Some ''10'') None False]))))
   \<and> c_end (ctrl_of (Fin 10) (Fin 0) False None True []) = Fin 0
   \<and> loopTimer (ctrl_of (Fin 10) (Fin 0) False None True []) = None
   \<and> timers_of 0 (win (run [StateChange 0 PLAYING Done, StateChange 0 PLAYING Done]
        (snd (initVideoPortals digits_Number False True 0 [portal_of (Some ''10'') None False]))))
       = []"
proof -
  let ?c = "ctrl_of (Fin 10) (Fin 0) False None True []"
  let ?pg = "run [StateChange 0 PLAYING Done, StateChange 0 PLAYING Done]
        (snd (initVideoPortals digits_Number False True 0 [portal_of (Some ''10'') None False]))"
  have m: "?c \<in> set (ctrls ?pg)" unfolding sample_unbounded by simp
  have e: "c_end ?c = Fin 0" by (simp add: ctrl_of_def)
  have p: "pid ?c = 0" by (simp add: ctrl_of_def)
  show ?thesis
    using m e p invalid_range_never_starts_watchdog[OF m refl disjI1, OF e] by simp
qed

lemma clearLoop_twice: "clearLoop (clearLoop wc) = clearLoop wc"
  by (cases wc) (simp add: clearLoop_def split: option.splits)

lemma clearLoop_funpow: "0 < n \<Longrightarrow> (clearLoop ^^ n) wc = clearLoop wc"
proof (induction n)
  case 0
  then show ?case by simp
next
  case (Suc n)
  then show ?case by (cases n) (simp_all add: clearLoop_twice)
qed

text \<open>
  Claim C7: cancelling the loop watchdog is idempotent. \<open>clearLoop\<close> has no failing
  branch (\<^verbatim>\<open>clearInterval\<close> accepts any handle), cancelling twice gives what cancelling
  once gives, and after any positive number of cancels on a reachable page the portal has
  no timer: \<open>loopTimer\<close> is \<^verbatim>\<open>null\<close> and the window holds no interval of the portal.
\<close>

theorem clearLoop_idempotent:
  assumes "c \<in> set (ctrls pg)"
    and "pg = run es (snd (initVideoPortals num reduce io k ps))"
    and "0 < n"
  shows "clearLoop (clearLoop (win pg, c)) = clearLoop (win pg, c)
     \<and> loopTimer (snd ((clearLoop ^^ n) (win pg, c))) = None
     \<and> timers_of (pid c) (fst ((clearLoop ^^ n) (win pg, c))) = []"
proof -
  note r = reach(1)[OF assms(2)]
  have ok: "win_ok (win pg)" "ctrl_ok (win pg) c" using r assms(1) by (auto simp: page_ok_def)
  have n: "loopTimer (snd (clearLoop (win pg, c))) = None" by (rule clearLoop_None[OF ok])
  have "ctrl_ok (fst (clearLoop (win pg, c))) (snd (clearLoop (win pg, c)))"
    "pid (snd (clearLoop (win pg, c))) = pid c"
    using clearLoop_ok ok unfolding handler_ok_def by blast+
  then have "timers_of (pid c) (fst (clearLoop (win pg, c))) = []"
    using n by (simp add: ctrl_ok_def)
  then show ?thesis using n by (simp add: clearLoop_twice clearLoop_funpow[OF assms(3)])
qed

theorem clearLoop_idempotent_witness:
  "ctrl_of (Fin 10) (Fin 20) False (Some 1) True []
     \<in> set (ctrls (run [StateChange 0 PLAYING Done]
        (snd (initVideoPortals digits_Number False True 0
           [portal_of (Some ''10'') (Some ''20'') False]))))
   \<and> (0::nat) < 2
   \<and> clearLoop (clearLoop (\<lparr>counter = 1, intervals = [(1, 0)]\<rparr>,
        ctrl_of (Fin 10) (Fin 20) False (Some 1) True []))
       = (\<lparr>counter = 1, intervals = []\<rparr>, ctrl_of (Fin 10) (Fin 20) False None True [])
   \<and> loopTimer (snd ((clearLoop ^^ 2) (\<lparr>counter = 1, intervals = [(1, 0)]\<rparr>,
        ctrl_of (Fin 10) (Fin 20) False (Some 1) True []))) = None
   \<and> timers_of 0 (fst ((clearLoop ^^ 2) (\<lparr>counter = 1, intervals = [(1, 0)]\<rparr>,
        ctrl_of (Fin 10) (Fin 20) False (Some 1) True []))) = []"
proof -
  let ?c = "ctrl_of (Fin 10) (Fin 20) False (Some 1) True []"
  let ?pg = "run [StateChange 0 PLAYING Done]
        (snd (initVideoPortals digits_Number False True 0
           [portal_of (Some ''10'') (Some ''20'') False]))"
  have m: "?c \<in> set (ctrls ?pg)" unfolding sample_playing by simp
  have w: "win ?pg = \<lparr>counter = 1, intervals = [(1, 0)]\<rparr>" unfolding sample_playing by simp
  have p: "pid ?c = 0" by (simp add: ctrl_of_def)
  have n: "(0::nat) < 2" by simp
  have c: "clearLoop (\<lparr>counter = 1, intervals = [(1, 0)]\<rparr>, ?c)
       = (\<lparr>counter = 1, intervals = []\<rparr>, ctrl_of (Fin 10) (Fin 20) False None True [])"
    by (simp add: clearLoop_def clearInterval_def ctrl_of_def)
  show ?thesis
    using m n p c clearLoop_idempotent[OF m refl n] unfolding w by simp
qed

section \<open>Reduced motion and the start button\<close>

text \<open>
  Claim C9: on a page created with reduced motion, the ready handler of a portal mutes
  and issues no play command, whatever \<^verbatim>\<open>mute()\<close> answers (without reduced motion it
  mutes and plays). The click handler of the start button, for reduced-motion and normal
  portals alike, calls \<^verbatim>\<open>mute()\<close> and then \<^verbatim>\<open>playVideo()\<close>; the play command is left out
  only when \<^verbatim>\<open>mute()\<close> itself throws. When the player then reports the playing state,
  the portal is marked as playing.
\<close>

theorem reduced_motion_waits_for_start:
  assumes "c \<in> set (ctrls pg)"
    and "pg = run es (snd (initVideoPortals num reduce io k ps))"
  shows "(reduce \<longrightarrow> issued (onReady m c) = issued c @ [Mute])
     \<and> (\<not> reduce \<longrightarrow> issued (onReady Done c) = issued c @ [Mute, PlayVideo])
     \<and> (startBtn (ps ! pid c) \<longrightarrow>
          issued (startClick m c) = issued c @ Mute # (if m = Done then [PlayVideo] else [])
          \<and> is_playing (snd (onStateChange PLAYING sk (win pg, startClick m c))))"
proof -
  have b: "bound_to num reduce io ps c" using reach(2)[OF assms(2)] assms(1) by blast
  have ip: "\<And>wc. is_playing (snd (ensureLoop wc)) = is_playing (snd wc)"
    by (simp add: ensureLoop_fields)
  show ?thesis using b
    by (simp add: bound_to_def onReady_def startClick_def Let_def call_def onStateChange_def ip
        PLAYING_def ENDED_def split: resp.splits)
qed

theorem reduced_motion_waits_for_start_witness:
  "ctrl_of (Fin 0) (Fin 0) True None False [Mute]
     \<in> set (ctrls (run [PlayerReady 0 Done]
        (snd (initVideoPortals digits_Number True True 0 [portal_of None None False]))))
   \<and> startBtn ([portal_of None None False] ! 0)
   \<and> issued (onReady Done (ctrl_of (Fin 0) (Fin 0) True None False [Mute])) = [Mute, Mute]
   \<and> issued (startClick Done (ctrl_of (Fin 0) (Fin 0) True None False [Mute]))
       = [Mute, Mute, PlayVideo]
   \<and> is_playing (snd (onStateChange PLAYING Done
         (\<lparr>counter = 0, intervals = []\<rparr>,
          startClick Done (ctrl_of (Fin 0) (Fin 0) True None False [Mute]))))"
proof -
  let ?c = "ctrl_of (Fin 0) (Fin 0) True None False [Mute]"
  let ?pg = "run [PlayerReady 0 Done]
        (snd (initVideoPortals digits_Number True True 0 [portal_of None None False]))"
  have m: "?c \<in> set (ctrls ?pg)" unfolding sample_reduced by simp
  have w: "win ?pg = \<lparr>counter = 0, intervals = []\<rparr>" unfolding sample_reduced by simp
  have p: "pid ?c = 0" "issued ?c = [Mute]" by (simp_all add: ctrl_of_def)
  have b: "startBtn ([portal_of None None False] ! 0)" by (simp add: portal_of_def)
  show ?thesis
    using m b reduced_motion_waits_for_start[OF m refl, of Done Done] unfolding w p by simp
qed

section \<open>Missing and non-numeric offsets\<close>

text \<open>
  Claim C10 says that a portal whose \<^verbatim>\<open>data-start\<close> or \<^verbatim>\<open>data-end\<close> is missing or not a
  number gets a player configuration without start and end offsets and never seeks at the
  end of the media. With \<^verbatim>\<open>data-start="10"\<close> and no \<^verbatim>\<open>data-end\<close>, the configuration
  holds \<open>start = 10\<close>, and the \<^verbatim>\<open>ENDED\<close> state makes the handler seek to 10 and play: each
  guard looks at its own attribute only.
\<close>

theorem start_only_portal_keeps_offset_and_seek:
  "map playerVars (ctrls (snd (initVideoPortals digits_Number False True 0
        [portal_of (Some ''10'') None False])))
     = [[(''autoplay'', Fin 1), (''controls'', Fin 0), (''modestbranding'', Fin 1), (''rel'', Fin 0),
         (''playsinline'', Fin 1), (''iv_load_policy'', Fin 3), (''fs'', Fin 0),
         (''disablekb'', Fin 1), (''start'', Fin 10), (''mute'', Fin 1)]]
   \<and> map issued (ctrls (step (StateChange 0 ENDED Done)
        (snd (initVideoPortals digits_Number False True 0 [portal_of (Some ''10'') None False]))))
     = [[SeekTo (Fin 10) True, PlayVideo]]"
  by (simp add: initVideoPortals_def mountPortal_def portal_of_def Let_def or_zero_def
      digits_Number_samples on_ctrl_def onStateChange_def js_gt_def PLAYING_def ENDED_def
      make_playerVars_def call_def)

lemma forEach_mount_completes:
  "\<forall>p \<in> set ps. \<not> ctor_throws p \<Longrightarrow> fst (forEach_mount num reduce io i ps acc) = Completed"
proof (induction ps arbitrary: i acc)
  case Nil
  then show ?case by simp
next
  case (Cons p ps)
  have "mountPortal num reduce io i p \<noteq> Faulted" using Cons.prems
    by (simp add: mountPortal_def Let_def split: option.splits)
  then show ?case using Cons by (cases "mountPortal num reduce io i p") simp_all
qed

lemma unparsed_not_positive:
  assumes "num ''0'' = Fin 0" "a = None \<or> num (or_zero a) = NaN"
  shows "\<not> js_gt (num (or_zero a)) (Fin 0)"
  using assms by (auto simp: or_zero_def js_gt_def)

text \<open>
  Claim C10 as the script has it, for any built-in \<^verbatim>\<open>Number\<close> that maps \<^verbatim>\<open>"0"\<close> to 0.
  When \<^verbatim>\<open>data-start\<close> is missing or parses to \<open>NaN\<close>, the configuration has no start
  offset, the portal never has a loop watchdog, and the \<^verbatim>\<open>ENDED\<close> state issues no call.
  When \<^verbatim>\<open>data-end\<close> is missing or parses to \<open>NaN\<close>, the configuration has no end offset
  and the portal never has a loop watchdog. Parsing never throws: the initialisation
  completes whenever the player constructor does not throw.
\<close>

theorem unparsed_offsets_fail_their_guards:
  assumes "num ''0'' = Fin 0"
    and "c \<in> set (ctrls pg)"
    and "pg = run es (snd (initVideoPortals num reduce io k ps))"
  shows "(data_start (ps ! pid c) = None \<or> num (or_zero (data_start (ps ! pid c))) = NaN \<longrightarrow>
            map_of (playerVars c) ''start'' = None
            \<and> loopTimer c = None \<and> timers_of (pid c) (win pg) = []
            \<and> issued (snd (onStateChange ENDED sk (win pg, c))) = issued c)
     \<and> (data_end (ps ! pid c) = None \<or> num (or_zero (data_end (ps ! pid c))) = NaN \<longrightarrow>
            map_of (playerVars c) ''end'' = None
            \<and> loopTimer c = None \<and> timers_of (pid c) (win pg) = [])
     \<and> ((\<forall>p \<in> set ps. \<not> ctor_throws p) \<longrightarrow>
            fst (initVideoPortals num reduce io k ps) = Completed)"
proof -
  note r = reach[OF assms(3)]
  have b: "bound_to num reduce io ps c" using r(2) assms(2) by blast
  have ok: "ctrl_ok (win pg) c" using r(1) assms(2) by (simp add: page_ok_def)
  have idle: "\<not> valid_range c \<Longrightarrow> loopTimer c = None \<and> timers_of (pid c) (win pg) = []"
    using r(3) assms(2) ok by (auto simp: idle_if_unbounded_def ctrl_ok_timers)
  have s: "map_of (playerVars c) ''start'' = None
            \<and> loopTimer c = None \<and> timers_of (pid c) (win pg) = []
            \<and> issued (snd (onStateChange ENDED sk (win pg, c))) = issued c"
    if "data_start (ps ! pid c) = None \<or> num (or_zero (data_start (ps ! pid c))) = NaN"
  proof -
    have n: "\<not> js_gt (c_start c) (Fin 0)"
      using unparsed_not_positive[OF assms(1) that] b by (simp add: bound_to_def)
    then have "\<not> valid_range c" by (simp add: valid_range_def)
    moreover have "map_of (playerVars c) ''start'' = None"
      using b n by (simp add: bound_to_def make_playerVars_def)
    moreover have "issued (snd (onStateChange ENDED sk (win pg, c))) = issued c"
      using n by (simp add: onStateChange_def Let_def PLAYING_def ENDED_def)
    ultimately show ?thesis using idle by blast
  qed
  have e: "map_of (playerVars c) ''end'' = None
            \<and> loopTimer c = None \<and> timers_of (pid c) (win pg) = []"
    if "data_end (ps ! pid c) = None \<or> num (or_zero (data_end (ps ! pid c))) = NaN"
  proof -
    have n: "\<not> js_gt (c_end c) (Fin 0)"
      using unparsed_not_positive[OF assms(1) that] b by (simp add: bound_to_def)
    then have "\<not> valid_range c" by (simp add: valid_range_def)
    moreover have "map_of (playerVars c) ''end'' = None"
      using b n by (simp add: bound_to_def make_playerVars_def)
    ultimately show ?thesis using idle by blast
  qed
  have f: "(\<forall>p \<in> set ps. \<not> ctor_throws p) \<longrightarrow>
      fst (initVideoPortals num reduce io k ps) = Completed"
    by (simp add: initVideoPortals_def Let_def forEach_mount_completes)
  show ?thesis using s e f by blast
qed

theorem unparsed_offsets_fail_their_guards_witness:
  "digits_Number ''0'' = Fin 0
   \<and> ctrl_of NaN (Fin 0) False None True []
       \<in> set (ctrls (run [StateChange 0 PLAYING Done]
          (snd (initVideoPortals digits_Number False True 0 [portal_of (Some ''abc'') None False]))))
   \<and> digits_Number (or_zero (data_start ([portal_of (Some ''abc'') None False] ! 0))) = NaN
   \<and> data_end ([portal_of (Some ''abc'') None False] ! 0) = None
   \<and> map ctor_throws [portal_of (Some ''abc'') None False] = [False]
   \<and> map_of (playerVars (ctrl_of NaN (Fin 0) False None True [])) ''start'' = None
   \<and> map_of (playerVars (ctrl_of NaN (Fin 0) False None True [])) ''end'' = None
   \<and> loopTimer (ctrl_of NaN (Fin 0) False None True []) = None
   \<and> issued (snd (onStateChange ENDED Done
        (\<lparr>counter = 0, intervals = []\<rparr>, ctrl_of NaN (Fin 0) False None True []))) = []
   \<and> fst (initVideoPortals digits_Number False True 0 [portal_of (Some ''abc'') None False])
       = Completed"
proof -
  let ?c = "ctrl_of NaN (Fin 0) False None True []"
  let ?pg = "run [StateChange 0 PLAYING Done]
        (snd (initVideoPortals digits_Number False True 0 [portal_of (Some ''abc'') None False]))"
  have z: "digits_Number ''0'' = Fin 0" by (rule digits_Number_samples(1))
  have m: "?c \<in> set (ctrls ?pg)" unfolding sample_nan by simp
  have w: "win ?pg = \<lparr>counter = 0, intervals = []\<rparr>" unfolding sample_nan by simp
  have p: "pid ?c = 0" "issued ?c = []" by (simp_all add: ctrl_of_def)
  have h: "digits_Number (or_zero (data_start ([portal_of (Some ''abc'') None False] ! 0))) = NaN"
    "data_end ([portal_of (Some ''abc'') None False] ! 0) = None"
    "\<forall>p \<in> set [portal_of (Some ''abc'') None False]. \<not> ctor_throws p"
    by (simp_all add: portal_of_def or_zero_def digits_Number_samples)
  have t: "map ctor_throws [portal_of (Some ''abc'') None False] = [False]"
    by (simp add: portal_of_def)
  show ?thesis
    using z m h t unparsed_offsets_fail_their_guards[OF z m refl, of Done] unfolding w p by simp
qed

section \<open>The SDK is requested once\<close>













section \<open>Deferred images\<close>

















lemma initSmartMedia_nth:
  "n < length els \<Longrightarrow>
     imgs (initSmartMedia io cl els) ! n
       = (if io then (register (els ! n))\<lparr>observed := True\<rparr> else loadImg (register (els ! n)))"
  by (auto simp: initSmartMedia_def Let_def)

lemma initSmartMedia_length: "length (imgs (initSmartMedia io cl els)) = length els"
  by (simp add: initSmartMedia_def Let_def)









section \<open>Without an intersection observer\<close>

text \<open>
  Claim C8: when \<^verbatim>\<open>IntersectionObserver\<close> is missing, \<open>initSmartMedia\<close> calls
  \<open>loadImg\<close> on every candidate before it returns. Every candidate that has a target
  source, whatever else the markup gave it, then has that source assigned and one pair
  of listeners registered: it is Loading, not Pending. (A candidate whose \<^verbatim>\<open>data-src\<close>
  is empty is skipped by the guard of \<open>loadImg\<close>, as the specification says of elements
  without a target source.)
\<close>

theorem fallback_loads_every_image:
  assumes "n < length els"
  shows "length (imgs (initSmartMedia False cl els)) = length els
     \<and> imgs (initSmartMedia False cl els) ! n = loadImg (register (els ! n))
     \<and> (el_data_src (els ! n) = Some t \<and> t \<noteq> [] \<longrightarrow>
          src (imgs (initSmartMedia False cl els) ! n) = Some t
          \<and> listeners (imgs (initSmartMedia False cl els) ! n) = 1
          \<and> \<not> observed (imgs (initSmartMedia False cl els) ! n)
          \<and> status_of (imgs (initSmartMedia False cl els) ! n) = Loading)"
proof -
  have 1: "length (imgs (initSmartMedia False cl els)) = length els"
    by (rule initSmartMedia_length)
  have 2: "imgs (initSmartMedia False cl els) ! n = loadImg (register (els ! n))"
    using assms by (simp add: initSmartMedia_nth)
  have 3: "el_data_src (els ! n) = Some t \<and> t \<noteq> [] \<longrightarrow>
          src (loadImg (register (els ! n))) = Some t
          \<and> listeners (loadImg (register (els ! n))) = 1
          \<and> \<not> observed (loadImg (register (els ! n)))
          \<and> status_of (loadImg (register (els ! n))) = Loading"
    by (simp add: register_def loadImg_def status_of_def)
  show ?thesis using 1 2 3 by simp
qed

theorem fallback_loads_every_image_witness:
  "(1::nat) < length
      [element_of (Some ''a.jpg'') None None, element_of (Some ''b.jpg'') (Some ''old.gif'') (Some 0)]
   \<and> el_data_src ([element_of (Some ''a.jpg'') None None,
         element_of (Some ''b.jpg'') (Some ''old.gif'') (Some 0)] ! 1) = Some ''b.jpg''
   \<and> imgs (initSmartMedia False (\<lambda>e. [''has-error''])
        [element_of (Some ''a.jpg'') None None,
         element_of (Some ''b.jpg'') (Some ''old.gif'') (Some 0)]) ! 1
       = img_of ''b.jpg'' (Some ''b.jpg'') 1 []
   \<and> status_of (imgs (initSmartMedia False (\<lambda>e. [''has-error''])
        [element_of (Some ''a.jpg'') None None,
         element_of (Some ''b.jpg'') (Some ''old.gif'') (Some 0)]) ! 1) = Loading"
proof -
  let ?els = "[element_of (Some ''a.jpg'') None None,
         element_of (Some ''b.jpg'') (Some ''old.gif'') (Some 0)]"
  let ?m = "initSmartMedia False (\<lambda>e. [''has-error'']) ?els"
  have n: "(1::nat) < length ?els" by simp
  have u: "el_data_src (?els ! 1) = Some ''b.jpg''" "''b.jpg'' \<noteq> []"
    by (simp_all add: element_of_def)
  note t = fallback_loads_every_image[OF n, where t = "''b.jpg''" and cl = "\<lambda>e. [''has-error'']"]
  have l: "imgs ?m ! 1 = loadImg (register (?els ! 1))"
    by (rule conjunct1[OF conjunct2[OF t]])
  have s: "src (imgs ?m ! 1) = Some ''b.jpg''
          \<and> listeners (imgs ?m ! 1) = 1
          \<and> \<not> observed (imgs ?m ! 1)
          \<and> status_of (imgs ?m ! 1) = Loading"
    using mp[OF conjunct2[OF conjunct2[OF t]]] u by simp
  have e: "loadImg (register (?els ! 1)) = img_of ''b.jpg'' (Some ''b.jpg'') 1 []"
    by (simp add: element_of_def register_def loadImg_def img_of_def)
  show ?thesis using n u(1) l e s by simp
qed

end
